theory Spec2Isabelle
  imports Main "HOL-Library.AList"
begin

section \<open>Data model\<close>

text \<open>
  The path utilities (\<open>combineEmpty\<close>, \<open>toPath\<close>, \<open>superToPath\<close>, \<open>get\<close>, \<open>pick\<close>) work on
  untyped JavaScript data. A value is one of the JSON shapes, or \<open>undefined\<close>.
  An object is the list of its own properties in insertion order, each key once (a read
  takes the first entry of a key, an assignment replaces it); an array is the list of
  its elements (no holes). A property read on such a value sees own properties, array
  and string indices and \<open>length\<close> only: the members that data inherits through the
  prototype chain (methods of \<open>Object.prototype\<close>, \<open>Array.prototype\<close>, ...) are not
  values of the model. The one read of the sources on an object of their own making,
  \<open>cache[string]\<close> in \<open>stringToPath\<close>, is modelled with the members of
  \<open>Object.prototype\<close> (section \<open>toPath\<close>).
  Numbers are the integers (the sources only compare and copy them).
  A string is a list of 8-bit characters.
\<close>

datatype jsval =
    JUndefined
  | JNull
  | JBool bool
  | JNum int
  | JStr string
  | JArr "jsval list"
  | JObj "(string \<times> jsval) list"

text \<open>\<open>v == null\<close>: true of \<open>null\<close> and \<open>undefined\<close>.\<close>

definition isNullish :: "jsval \<Rightarrow> bool" where
  "isNullish v = (v = JUndefined \<or> v = JNull)"

definition isDigit :: "char \<Rightarrow> bool" where
  "isDigit c = (c \<in> set ''0123456789'')"

definition digitValue :: "char \<Rightarrow> nat" where
  "digitValue c = of_char c - 48"

text \<open>
  A property key names an array index when it is the canonical decimal numeral of the
  index: digits only, no leading zero.
\<close>

definition arrayIndex :: "string \<Rightarrow> nat option" where
  "arrayIndex key =
     (if key \<noteq> [] \<and> list_all isDigit key \<and> (key = ''0'' \<or> hd key \<noteq> CHR ''0'')
      then Some (foldl (\<lambda>n c. 10 * n + digitValue c) 0 key)
      else None)"

text \<open>
  \<open>current[key]\<close> for a string key. Every read in the sources is guarded by a test
  \<open>current != null\<close>, so the equations for \<open>null\<close> and \<open>undefined\<close> (where JavaScript
  throws) are never reached; the guards are kept in the functions below.
\<close>

fun getProp :: "jsval \<Rightarrow> string \<Rightarrow> jsval" where
  "getProp (JObj props) key =
     (case map_of props key of Some v \<Rightarrow> v | None \<Rightarrow> JUndefined)"
| "getProp (JArr items) key =
     (case arrayIndex key of
        Some n \<Rightarrow> if n < length items then items ! n else JUndefined
      | None \<Rightarrow> if key = ''length'' then JNum (int (length items)) else JUndefined)"
| "getProp (JStr s) key =
     (case arrayIndex key of
        Some n \<Rightarrow> if n < length s then JStr [s ! n] else JUndefined
      | None \<Rightarrow> if key = ''length'' then JNum (int (length s)) else JUndefined)"
| "getProp _ key = JUndefined"

text \<open>
  A path argument has the TypeScript type \<open>string | string[]\<close>; the tests also pass
  \<open>null\<close> and \<open>undefined\<close> (\<open>null as any\<close>).
\<close>

datatype path = PathNull | PathStr string | PathArr "string list"

text \<open>
  The exception of the sources: the \<open>TypeError\<close> that JavaScript throws at the call of a
  method that the receiver does not have (\<open>keys.includes\<close> on a value that is not an
  array). A function that may throw returns \<open>Inl\<close> of the error or \<open>Inr\<close> of its
  value.
\<close>

datatype error = TypeError

section \<open>combineEmpty\<close>

text \<open>
  The \<open>for\<close> loop of \<open>combineEmpty\<close> with its two variables \<open>result\<close> and
  \<open>emptyCount\<close>, then the test for trailing empty items after the loop.
\<close>

fun combineEmpty_loop :: "string list \<Rightarrow> string list \<Rightarrow> nat \<Rightarrow> string list \<times> nat" where
  "combineEmpty_loop [] result emptyCount = (result, emptyCount)"
| "combineEmpty_loop (item # arr) result emptyCount =
     (if item = ''''
      then combineEmpty_loop arr result (emptyCount + 1)
      else if emptyCount > 0
        then combineEmpty_loop arr (result @ [replicate emptyCount CHR ''.'' @ item]) 0
        else combineEmpty_loop arr (result @ [item]) emptyCount)"

definition combineEmpty :: "string list \<Rightarrow> string list" where
  "combineEmpty arr =
     (case combineEmpty_loop arr [] 0 of
        (result, emptyCount) \<Rightarrow>
          if emptyCount > 0 then result @ [replicate emptyCount CHR ''.''] else result)"

section \<open>toPath\<close>

abbreviation backslash :: char where "backslash \<equiv> CHR 0x5C"
abbreviation dquote :: char where "dquote \<equiv> CHR 0x22"
abbreviation squote :: char where "squote \<equiv> CHR 0x27"

text \<open>
  The line terminators that \<open>.\<close> does not match (U+2028 and U+2029 are not 8-bit
  characters).
\<close>

definition isLineTerminator :: "char \<Rightarrow> bool" where
  "isLineTerminator c = (c = CHR 0x0A \<or> c = CHR 0x0D)"

text \<open>
  \<open>string.replace(/\\(\\)?/g, '$1')\<close>: a backslash followed by a backslash becomes one
  backslash, any other backslash is removed.
\<close>

fun unescape :: "string \<Rightarrow> string" where
  "unescape [] = []"
| "unescape (c # cs) =
     (if c = backslash
      then (case cs of
              [] \<Rightarrow> []
            | c' # cs' \<Rightarrow> if c' = backslash then backslash # unescape cs' else unescape cs)
      else c # unescape cs)"

text \<open>
  The result of \<open>rePropName.exec\<close>: the index of the match, the matched text \<open>match[0]\<close>
  and the capture groups \<open>match[1]\<close> (number), \<open>match[2]\<close> (quote) and \<open>match[3]\<close>
  (quoted text), \<open>None\<close> for a group that did not take part.
\<close>

record rmatch =
  m_index :: nat
  m_0 :: string
  m_1 :: "string option"
  m_2 :: "string option"
  m_3 :: "string option"

text \<open>
  \<open>-?\d+(?:\.\d+)?\<close> at the start of \<open>s\<close>: the matched numeral and the rest. In
  \<open>rePropName\<close> a \<open>]\<close> must follow, which no shorter match of the greedy parts allows
  (the character after a shorter match is a digit or the dot), so the longest match is
  the only one to try.
\<close>

definition reNumber :: "string \<Rightarrow> (string \<times> string) option" where
  "reNumber s =
     (let sign = (if take 1 s = ''-'' then ''-'' else '''');
          s1 = drop (length sign) s;
          ds = takeWhile isDigit s1;
          s2 = dropWhile isDigit s1
      in if ds = [] then None
         else if take 1 s2 = ''.'' \<and> takeWhile isDigit (drop 1 s2) \<noteq> []
           then Some (sign @ ds @ ''.'' @ takeWhile isDigit (drop 1 s2),
                      dropWhile isDigit (drop 1 s2))
           else Some (sign @ ds, s2))"

text \<open>
  \<open>((?:(?!\2)[^\\]|\\.)*?)\2\<close> after the opening quote \<open>q\<close>: the quoted text and the
  rest after the closing quote. The lazy repetition stops at the first quote that is not
  escaped; a backslash needs a following character that is not a line terminator.
\<close>

fun reQuoted :: "char \<Rightarrow> string \<Rightarrow> (string \<times> string) option" where
  "reQuoted q [] = None"
| "reQuoted q (c # cs) =
     (if c = q then Some ([], cs)
      else if c = backslash
        then (case cs of
                [] \<Rightarrow> None
              | e # cs' \<Rightarrow>
                  if isLineTerminator e then None
                  else map_option (\<lambda>(content, r). (c # e # content, r)) (reQuoted q cs'))
        else map_option (\<lambda>(content, r). (c # content, r)) (reQuoted q cs))"

text \<open>
  The third alternative of \<open>rePropName\<close>,
  \<open>\[(?:(-?\d+(?:\.\d+)?)|(["'])((?:(?!\2)[^\\]|\\.)*?)\2)\]\<close>: the matched text and the
  groups 1, 2 and 3.
\<close>

definition reBracket ::
  "string \<Rightarrow> (string \<times> string option \<times> string option \<times> string option) option" where
  "reBracket s =
     (if take 1 s \<noteq> ''['' then None
      else
        (case (case reNumber (drop 1 s) of
                 Some (num, r) \<Rightarrow> if take 1 r = '']'' then Some num else None
               | None \<Rightarrow> None) of
           Some num \<Rightarrow> Some (''['' @ num @ '']'', Some num, None, None)
         | None \<Rightarrow>
             (case drop 1 s of
                [] \<Rightarrow> None
              | q # s' \<Rightarrow>
                  if q = dquote \<or> q = squote
                  then (case reQuoted q s' of
                          Some (content, r) \<Rightarrow>
                            if take 1 r = '']''
                            then Some (''['' @ [q] @ content @ [q] @ '']'',
                                       None, Some [q], Some content)
                            else None
                        | None \<Rightarrow> None)
                  else None)))"

text \<open>
  The fourth alternative, the lookahead \<open>(?=(?:\.|\[\])(?:\.|\[\]|$))\<close>: it consumes
  nothing.
\<close>

definition reSeparator :: "string \<Rightarrow> string option" where
  "reSeparator s =
     (if take 1 s = ''.'' then Some (drop 1 s)
      else if take 2 s = ''[]'' then Some (drop 2 s)
      else None)"

definition reLookahead :: "string \<Rightarrow> bool" where
  "reLookahead s =
     (case reSeparator s of
        None \<Rightarrow> False
      | Some r \<Rightarrow> take 1 r = ''.'' \<or> take 2 r = ''[]'' \<or> r = [])"

text \<open>
  \<open>rePropName\<close> tried at the start of \<open>s\<close>, its alternatives in the order of the source:
  \<open>[^.[\]]+\<close>, then \<open>\[\]\<close>, then the bracket form, then the lookahead.
\<close>

definition rePropName_at ::
  "string \<Rightarrow> (string \<times> string option \<times> string option \<times> string option) option" where
  "rePropName_at s =
     (let name = takeWhile (\<lambda>c. c \<notin> set ''.[]'') s
      in if name \<noteq> [] then Some (name, None, None, None)
         else if take 2 s = ''[]'' then Some (''[]'', None, None, None)
         else (case reBracket s of
                 Some m \<Rightarrow> Some m
               | None \<Rightarrow> if reLookahead s then Some ('''', None, None, None) else None))"

text \<open>
  \<open>rePropName.exec(string)\<close> with the \<open>g\<close> flag: the search starts at \<open>lastIndex\<close> and
  moves right until the expression matches; past the end it returns \<open>null\<close>.
\<close>

function exec :: "string \<Rightarrow> nat \<Rightarrow> rmatch option" where
  "exec string lastIndex =
     (if lastIndex > length string then None
      else (case rePropName_at (drop lastIndex string) of
              Some (m0, m1, m2, m3) \<Rightarrow>
                Some \<lparr>m_index = lastIndex, m_0 = m0, m_1 = m1, m_2 = m2, m_3 = m3\<rparr>
            | None \<Rightarrow> exec string (lastIndex + 1)))"
  by pat_completeness auto
termination
  by (relation "measure (\<lambda>(string, lastIndex). Suc (length string) - lastIndex)") auto

declare exec.simps [simp del]

text \<open>
  \<open>match[0] === '[]' ? '[]' : (match[1] || match[3] || '')\<close>. Group 1 is never the
  empty string when it takes part.
\<close>

definition matchKey :: "rmatch \<Rightarrow> string" where
  "matchKey m =
     (if m_0 m = ''[]'' then ''[]''
      else (case m_1 m of
              Some n \<Rightarrow> n
            | None \<Rightarrow> (case m_3 m of Some q \<Rightarrow> q | None \<Rightarrow> '''')))"

text \<open>
  The loop \<open>while ((match = rePropName.exec(string)))\<close> of \<open>stringToPath\<close>. \<open>exec\<close>
  leaves \<open>lastIndex\<close> at the end of the match, so the next search starts at
  \<open>m_index m + length (m_0 m)\<close>; after an empty match that is the index of the match
  itself (\<open>exec\<close> does not step over an empty match, and the loop does not either).
  The loop may run forever: \<open>None\<close> is "does not return".
\<close>

partial_function (option) stringToPath_loop ::
  "string \<Rightarrow> nat \<Rightarrow> string list \<Rightarrow> string list option" where
  "stringToPath_loop string lastIndex result =
     (case exec string lastIndex of
        None \<Rightarrow> Some result
      | Some m \<Rightarrow>
          stringToPath_loop string (m_index m + length (m_0 m))
            (if matchKey m \<noteq> '''' then result @ [matchKey m] else result))"

declare stringToPath_loop.simps [code]

text \<open>
  The \<open>cache\<close> object of \<open>stringToPath\<close> is created by every call (\<open>const cache = {}\<close>
  inside the function), so it never has an own property when
  \<open>if (cache[string]) return cache[string]\<close> reads it. It inherits the members of
  \<open>Object.prototype\<close>, whose names are listed here: for a path string that is one of
  these names the read gives the member, a function (for \<open>__proto__\<close> the prototype
  object itself), which is truthy and is returned in the place of the array of keys.
\<close>

definition objectPrototype :: "string list" where
  "objectPrototype =
     [''constructor'', ''hasOwnProperty'', ''isPrototypeOf'', ''propertyIsEnumerable'',
      ''toLocaleString'', ''toString'', ''valueOf'', ''__proto__'',
      ''__defineGetter__'', ''__defineSetter__'', ''__lookupGetter__'', ''__lookupSetter__'']"

text \<open>
  What \<open>toPath\<close> returns: the array of the keys, or the member of \<open>Object.prototype\<close>
  of the given name.
\<close>

datatype tokens = Keys "string list" | Inherited string

text \<open>
  \<open>stringToPath\<close>; the argument is \<open>None\<close> for \<open>null\<close> or \<open>undefined\<close> (read as the
  property names \<open>"null"\<close> and \<open>"undefined"\<close>, which \<open>cache\<close> does not have). The
  result is \<open>None\<close> when the loop does not end.
\<close>

definition stringToPath :: "string option \<Rightarrow> tokens option" where
  "stringToPath string =
     (case string of
        None \<Rightarrow> Some (Keys [])
      | Some s \<Rightarrow>
          if s \<in> set objectPrototype then Some (Inherited s)
          else map_option Keys (stringToPath_loop (unescape s) 0 []))"

definition toPath :: "path \<Rightarrow> tokens option" where
  "toPath v =
     (case v of
        PathArr keys \<Rightarrow> Some (Keys keys)
      | PathStr s \<Rightarrow> stringToPath (Some s)
      | PathNull \<Rightarrow> stringToPath None)"

section \<open>superToPath\<close>

text \<open>\<open>value.split('.[].')\<close>; \<open>acc\<close> is the piece read so far.\<close>

fun split_wildcard :: "string \<Rightarrow> string \<Rightarrow> string list" where
  "split_wildcard acc [] = [acc]"
| "split_wildcard acc (c # cs) =
     (if c = CHR ''.'' \<and> take 3 cs = ''[].''
      then acc # split_wildcard [] (drop 3 cs)
      else split_wildcard (acc @ [c]) cs)"

text \<open>
  \<open>superToPath\<close> imports \<open>toPath\<close> from the lodash package, which is not part of the
  repository: it is the parameter \<open>lodash_toPath\<close>. The callback of
  \<open>segments.forEach\<close> is folded over the segments paired with their indices.
\<close>

definition superToPath :: "(path \<Rightarrow> string list) \<Rightarrow> path \<Rightarrow> string list" where
  "superToPath lodash_toPath v =
     (case v of
        PathArr keys \<Rightarrow> combineEmpty (lodash_toPath v)
      | PathNull \<Rightarrow> []
      | PathStr s \<Rightarrow>
          (let segments = split_wildcard [] s
           in foldl (\<lambda>result (segment, index).
                       (result
                        @ (if segment \<noteq> '''' then combineEmpty (lodash_toPath (PathStr segment))
                           else combineEmpty [''''])
                        @ (if index < length segments - 1 then [''[]''] else [])))
                    [] (zip segments [0..<length segments])))"

section \<open>get\<close>

text \<open>
  \<open>processWildcardGet(current, keys, index)\<close>, the recursive resolver; it returns an array
  or \<open>undefined\<close>.
\<close>

function processWildcardGet :: "jsval \<Rightarrow> string list \<Rightarrow> nat \<Rightarrow> jsval" where
  "processWildcardGet current keys index =
     (if isNullish current \<or> index \<ge> length keys then JUndefined
      else if keys ! index \<noteq> ''[]''
        then (if index = length keys - 1
              then (if getProp current (keys ! index) \<noteq> JUndefined
                    then JArr [getProp current (keys ! index)]
                    else JUndefined)
              else processWildcardGet (getProp current (keys ! index)) keys (index + 1))
        else (case current of
                JArr items \<Rightarrow>
                  (let result = filter (\<lambda>item. item \<noteq> JUndefined)
                                  (map (\<lambda>item. processWildcardGet item keys (index + 1)) items)
                   in if length result > 0 then JArr result else JUndefined)
              | _ \<Rightarrow> JUndefined))"
  by pat_completeness auto
termination
  by (relation "measure (\<lambda>(current, keys, index). length keys - index)") auto

declare processWildcardGet.simps [simp del]

text \<open>
  The standard walk of \<open>get\<close>: the \<open>for\<close> loop over the keys with its early
  \<open>return defaultValue\<close>, and the \<open>return\<close> after the loop.
\<close>

fun get_loop :: "jsval \<Rightarrow> string list \<Rightarrow> jsval \<Rightarrow> jsval" where
  "get_loop current [] defaultValue =
     (if current \<noteq> JUndefined then current else defaultValue)"
| "get_loop current (key # keys) defaultValue =
     (let current' = (if \<not> isNullish current then getProp current key else JUndefined)
      in if isNullish current' then defaultValue
         else get_loop current' keys defaultValue)"

text \<open>
  \<open>get(object, path, defaultValue)\<close>; \<open>defaultValue\<close> is \<open>JUndefined\<close> when the caller
  gives none. The result is \<open>None\<close> when \<open>toPath\<close> does not return. When \<open>toPath\<close>
  returns a member of \<open>Object.prototype\<close>, which has no method \<open>includes\<close>, the call
  \<open>keys.includes('[]')\<close> throws.
\<close>

definition get :: "jsval \<Rightarrow> path \<Rightarrow> jsval \<Rightarrow> (error + jsval) option" where
  "get object path defaultValue =
     (case toPath path of
        None \<Rightarrow> None
      | Some (Inherited name) \<Rightarrow> Some (Inl TypeError)
      | Some (Keys keys) \<Rightarrow>
          Some (Inr (if ''[]'' \<in> set keys
                then (let result = processWildcardGet object keys 0
                      in if result \<noteq> JUndefined \<and> (case result of JArr r \<Rightarrow> length r > 0 | _ \<Rightarrow> False)
                         then result
                         else (if defaultValue \<noteq> JUndefined then defaultValue else JArr []))
                else get_loop object keys defaultValue)))"

subsection \<open>The second get of the repository\<close>

text \<open>
  The repository holds a second \<open>get\<close> whose \<open>processWildcardGet(current, keys, result)\<close>
  pushes every leaf onto one shared \<open>result\<close> array. \<open>traverse\<close> is its loop
  \<open>for (const key of keys) { if (value == null) return; value = value[key]; }\<close>, with
  \<open>None\<close> for the early \<open>return\<close>.
\<close>

fun traverse :: "jsval \<Rightarrow> string list \<Rightarrow> jsval option" where
  "traverse v [] = Some v"
| "traverse v (key # keys) =
     (if isNullish v then None else traverse (getProp v key) keys)"

text \<open>\<open>keys.indexOf('[]')\<close>, \<open>None\<close> for \<open>-1\<close>.\<close>

fun indexOf :: "string list \<Rightarrow> string \<Rightarrow> nat option" where
  "indexOf [] x = None"
| "indexOf (k # ks) x = (if k = x then Some 0 else map_option Suc (indexOf ks x))"

lemma indexOf_less: "indexOf ks x = Some i \<Longrightarrow> i < length ks"
  by (induction ks arbitrary: i) (auto split: if_splits)

function processWildcardGet_push :: "jsval \<Rightarrow> string list \<Rightarrow> jsval list \<Rightarrow> jsval list" where
  "processWildcardGet_push current keys result =
     (if isNullish current then result
      else (case indexOf keys ''[]'' of
              None \<Rightarrow>
                (case traverse current keys of
                   None \<Rightarrow> result
                 | Some v \<Rightarrow> if v \<noteq> JUndefined then result @ [v] else result)
            | Some wildcardIndex \<Rightarrow>
                (case traverse current (take wildcardIndex keys) of
                   Some (JArr items) \<Rightarrow>
                     foldl (\<lambda>result item.
                              processWildcardGet_push item (drop (wildcardIndex + 1) keys) result)
                           result items
                 | _ \<Rightarrow> result)))"
  by pat_completeness auto
termination
  by (relation "measure (\<lambda>(current, keys, result). length keys)")
     (auto dest: indexOf_less)

declare processWildcardGet_push.simps [simp del]

definition get_push :: "jsval \<Rightarrow> path \<Rightarrow> jsval \<Rightarrow> (error + jsval) option" where
  "get_push object path defaultValue =
     (case toPath path of
        None \<Rightarrow> None
      | Some (Inherited name) \<Rightarrow> Some (Inl TypeError)
      | Some (Keys keys) \<Rightarrow>
          Some (Inr (if ''[]'' \<in> set keys
                then (let result = processWildcardGet_push object keys []
                      in if length result > 0 then JArr result
                         else (if defaultValue \<noteq> JUndefined then defaultValue else JArr []))
                else get_loop object keys defaultValue)))"

section \<open>pick\<close>

text \<open>
  \<open>processWildcardPath(current, keys, index)\<close>; \<open>{ [key]: v }\<close> is the object with the one
  property \<open>key\<close>.
\<close>

function processWildcardPath :: "jsval \<Rightarrow> string list \<Rightarrow> nat \<Rightarrow> jsval" where
  "processWildcardPath current keys index =
     (if isNullish current \<or> index \<ge> length keys then JUndefined
      else if keys ! index \<noteq> ''[]''
        then (let nextValue = getProp current (keys ! index)
              in if index = length keys - 1
                 then (if nextValue \<noteq> JUndefined then JObj [(keys ! index, nextValue)]
                       else JUndefined)
                 else (let result = processWildcardPath nextValue keys (index + 1)
                       in if result \<noteq> JUndefined then JObj [(keys ! index, result)]
                          else JUndefined))
        else (case current of
                JArr items \<Rightarrow>
                  (let result = filter (\<lambda>item. item \<noteq> JUndefined)
                                  (map (\<lambda>item. processWildcardPath item keys (index + 1)) items)
                   in if length result > 0 then JArr result else JUndefined)
              | _ \<Rightarrow> JUndefined))"
  by pat_completeness auto
termination
  by (relation "measure (\<lambda>(current, keys, index). length keys - index)") auto

declare processWildcardPath.simps [simp del]

text \<open>
  The standard walk of \<open>pick\<close>:
  \<open>while (current != null && index < keys.length) { current = current[keys[index]]; index++; }\<close>;
  it returns the final \<open>current\<close> and \<open>index\<close>.
\<close>

function pick_while :: "jsval \<Rightarrow> string list \<Rightarrow> nat \<Rightarrow> jsval \<times> nat" where
  "pick_while current keys index =
     (if \<not> isNullish current \<and> index < length keys
      then pick_while (getProp current (keys ! index)) keys (index + 1)
      else (current, index))"
  by pat_completeness auto
termination
  by (relation "measure (\<lambda>(current, keys, index). length keys - index)") auto

declare pick_while.simps [simp del]

text \<open>
  The callback of \<open>props.forEach\<close> for the tokenized path \<open>keys\<close>: \<open>result\<close> is the list of
  the properties of the result object, and \<open>result[k] = v\<close> replaces the value of an own
  property \<open>k\<close> or appends the property.
\<close>

definition pick_keys :: "jsval \<Rightarrow> (string \<times> jsval) list \<Rightarrow> string list \<Rightarrow> (string \<times> jsval) list" where
  "pick_keys object result keys =
     (if ''[]'' \<in> set keys
      then AList.update (keys ! 0) (processWildcardPath object keys 0) result
      else (case pick_while object keys 0 of
              (current, index) \<Rightarrow>
                if index \<noteq> 0 \<and> index = length keys \<and> current \<noteq> JUndefined
                then AList.update (keys ! (length keys - 1)) current result
                else result))"

text \<open>
  \<open>props.forEach\<close>, left to right; \<open>None\<close> when \<open>toPath\<close> does not return for a path,
  and the \<open>TypeError\<close> of \<open>keys.includes('[]')\<close> when \<open>toPath\<close> returns a member of
  \<open>Object.prototype\<close> for it.
\<close>

fun pick_forEach ::
  "jsval \<Rightarrow> path list \<Rightarrow> (string \<times> jsval) list \<Rightarrow> (error + (string \<times> jsval) list) option" where
  "pick_forEach object [] result = Some (Inr result)"
| "pick_forEach object (p # props) result =
     (case toPath p of
        None \<Rightarrow> None
      | Some (Inherited name) \<Rightarrow> Some (Inl TypeError)
      | Some (Keys keys) \<Rightarrow> pick_forEach object props (pick_keys object result keys))"

text \<open>
  \<open>pick(object, paths)\<close>: \<open>props\<close> is \<open>paths\<close> when it is an array (of path strings),
  and the one-element array of \<open>paths\<close> otherwise.
\<close>

definition pick :: "jsval \<Rightarrow> path \<Rightarrow> (error + jsval) option" where
  "pick object paths =
     (if isNullish object then Some (Inr (JObj []))
      else (let props = (case paths of PathArr ps \<Rightarrow> map PathStr ps | _ \<Rightarrow> [paths])
            in map_option (map_sum id JObj) (pick_forEach object props [])))"

section \<open>Reference definitions\<close>

text \<open>
  The direct nested dereference of \<open>v\<close> by the segments \<open>keys\<close>, that is
  \<open>v?.[k1]?.[k2] ...\<close>: \<open>undefined\<close> as soon as a value on the way is \<open>null\<close> or
  \<open>undefined\<close>.
\<close>

fun deref :: "jsval \<Rightarrow> string list \<Rightarrow> jsval" where
  "deref v [] = v"
| "deref v (key # keys) = (if isNullish v then JUndefined else deref (getProp v key) keys)"

text \<open>
  \<open>nested n v\<close>: \<open>v\<close> is built of \<open>n\<close> levels of non-empty arrays, along every branch.
\<close>

fun nested :: "nat \<Rightarrow> jsval \<Rightarrow> bool" where
  "nested 0 v = True"
| "nested (Suc n) v = (case v of JArr items \<Rightarrow> items \<noteq> [] \<and> list_all (nested n) items | _ \<Rightarrow> False)"

section \<open>Objects of the tests\<close>

text \<open>
  The object of the nested-wildcard scenario, \<open>{a:[{b:[{c:42},{c:43}]},{b:[{c:99},{c:100}]}]}\<close>
  (the \<open>testObject\<close> of the test files without its property \<open>x\<close>), the object of the
  \<open>pick\<close> scenario, \<open>{a:[{b:[{c:42},{c:43}]}]}\<close>, and an object on which two paths end in
  the same key, \<open>{a:{k:1}, b:{k:2}}\<close>. Then the two objects of the test file,
  \<open>testObject\<close> (with \<open>x: 100\<close>) and \<open>objectWithMissing\<close>,
  \<open>{a:[{b:[{c:42},{}]},{b:[{c:99}]}]}\<close>.
\<close>

definition nestedObject :: jsval where
  "nestedObject =
     JObj [(''a'', JArr [JObj [(''b'', JArr [JObj [(''c'', JNum 42)], JObj [(''c'', JNum 43)]])],
                         JObj [(''b'', JArr [JObj [(''c'', JNum 99)], JObj [(''c'', JNum 100)]])]])]"

definition pickObject :: jsval where
  "pickObject =
     JObj [(''a'', JArr [JObj [(''b'', JArr [JObj [(''c'', JNum 42)], JObj [(''c'', JNum 43)]])]])]"


definition testObject :: jsval where
  "testObject =
     JObj [(''a'', JArr [JObj [(''b'', JArr [JObj [(''c'', JNum 42)], JObj [(''c'', JNum 43)]])],
                         JObj [(''b'', JArr [JObj [(''c'', JNum 99)], JObj [(''c'', JNum 100)]])]]),
           (''x'', JNum 100)]"

definition objectWithMissing :: jsval where
  "objectWithMissing =
     JObj [(''a'', JArr [JObj [(''b'', JArr [JObj [(''c'', JNum 42)], JObj []])],
                         JObj [(''b'', JArr [JObj [(''c'', JNum 99)]])]])]"

section \<open>Definitions used in the proofs\<close>

text \<open>
  The loop of \<open>stringToPath\<close> is stuck at \<open>i\<close> when \<open>exec\<close> matches the empty string at
  \<open>i\<close> itself and the match gives no key: \<open>lastIndex\<close> and \<open>result\<close> stay as they are, and
  the next iteration starts in the same state.
\<close>

definition stuck :: "string \<Rightarrow> nat \<Rightarrow> bool" where
  "stuck s i =
     (case exec s i of
        None \<Rightarrow> False
      | Some m \<Rightarrow> m_index m = i \<and> m_0 m = [] \<and> matchKey m = [])"

section \<open>Properties of combineEmpty\<close>

lemma combineEmpty_loop_result:
  "combineEmpty_loop xs r n =
     (r @ fst (combineEmpty_loop xs [] n), snd (combineEmpty_loop xs [] n))"
proof (induction xs arbitrary: r n)
  case Nil
  show ?case by simp
next
  case (Cons x xs)
  show ?case
  proof (cases "x = ''''")
    case True
    then show ?thesis using Cons.IH [of r "n + 1"] by simp
  next
    case False
    show ?thesis
    proof (cases "n > 0")
      case True
      with False show ?thesis
        using Cons.IH [of "r @ [replicate n CHR ''.'' @ x]" 0]
              Cons.IH [of "[replicate n CHR ''.'' @ x]" 0] by simp
    next
      case n0: False
      with False show ?thesis
        using Cons.IH [of "r @ [x]" n] Cons.IH [of "[x]" n] by simp
    qed
  qed
qed

lemma combineEmpty_loop_empties:
  "combineEmpty_loop (replicate k '''' @ ys) r n = combineEmpty_loop ys r (n + k)"
  by (induction k arbitrary: n) simp_all

lemma combineEmpty_run:
  assumes "t \<noteq> ''''"
  shows "combineEmpty (replicate n '''' @ t # rest) =
           (replicate n CHR ''.'' @ t) # combineEmpty rest"
proof -
  have "combineEmpty_loop (replicate n '''' @ t # rest) [] 0 = combineEmpty_loop (t # rest) [] n"
    using combineEmpty_loop_empties [of n "t # rest" "[]" 0] by simp
  also have "\<dots> = combineEmpty_loop rest [replicate n CHR ''.'' @ t] 0"
    using assms by (cases "n > 0") simp_all
  also have "\<dots> = ([replicate n CHR ''.'' @ t] @ fst (combineEmpty_loop rest [] 0),
                     snd (combineEmpty_loop rest [] 0))"
    by (rule combineEmpty_loop_result)
  finally show ?thesis
    by (simp add: combineEmpty_def split: prod.splits)
qed

lemma combineEmpty_trailing:
  "combineEmpty (replicate n '''') = (if n = 0 then [] else [replicate n CHR ''.''])"
  using combineEmpty_loop_empties [of n "[]" "[]" 0] by (simp add: combineEmpty_def)

lemma combineEmpty_no_empty: "'''' \<notin> set xs \<Longrightarrow> combineEmpty xs = xs"
proof (induction xs)
  case Nil
  show ?case by (simp add: combineEmpty_def)
next
  case (Cons x xs)
  then have "x \<noteq> ''''" and "combineEmpty xs = xs" by auto
  then show ?case using combineEmpty_run [of x 0 xs] by simp
qed

lemma runs_decompose:
  "\<exists>n. xs = replicate n '''' \<or>
       (\<exists>t rest. t \<noteq> '''' \<and> xs = replicate n '''' @ t # rest \<and> length rest < length xs)"
proof (induction xs)
  case Nil
  show ?case by (rule exI [of _ 0]) simp
next
  case (Cons x xs)
  show ?case
  proof (cases "x = ''''")
    case False
    then show ?thesis by (intro exI [of _ 0]) auto
  next
    case True
    from Cons.IH obtain n where
      n: "xs = replicate n '''' \<or>
          (\<exists>t rest. t \<noteq> '''' \<and> xs = replicate n '''' @ t # rest \<and> length rest < length xs)"
      by blast
    show ?thesis
      using n True by (intro exI [of _ "Suc n"]) auto
  qed
qed

lemma combineEmpty_output_nonempty: "'''' \<notin> set (combineEmpty xs)"
proof (induction xs rule: length_induct)
  case (1 xs)
  from runs_decompose [of xs] obtain n where
    "xs = replicate n '''' \<or>
     (\<exists>t rest. t \<noteq> '''' \<and> xs = replicate n '''' @ t # rest \<and> length rest < length xs)"
    by blast
  then show ?case
  proof
    assume "xs = replicate n ''''"
    then show ?thesis by (simp add: combineEmpty_trailing)
  next
    assume "\<exists>t rest. t \<noteq> '''' \<and> xs = replicate n '''' @ t # rest \<and> length rest < length xs"
    then obtain t rest where t: "t \<noteq> ''''" and xs: "xs = replicate n '''' @ t # rest"
      and len: "length rest < length xs" by blast
    from 1 len have "'''' \<notin> set (combineEmpty rest)" by blast
    with t xs show ?thesis by (simp add: combineEmpty_run)
  qed
qed

text \<open>
  Claim C3. \<open>combineEmpty\<close> rewrites a run of \<open>n\<close> empty segments followed by a non-empty
  segment \<open>t\<close> into the one segment of \<open>n\<close> dots followed by \<open>t\<close> and goes on with the rest
  (for \<open>n = 0\<close>: a segment not preceded by empties is emitted unchanged); a trailing run
  of \<open>n > 0\<close> empties becomes the one segment of \<open>n\<close> dots. Every list is such a sequence of
  runs, so the two equations determine the result. Hence
  \<open>combineEmpty(["a","","","c"]) = ["a","..c"]\<close>, \<open>combineEmpty([""]) = ["."]\<close>,
  \<open>combineEmpty(["",""]) = [".."]\<close> and \<open>combineEmpty([]) = []\<close>.
\<close>

theorem combineEmpty_runs:
  "(t \<noteq> '''' \<longrightarrow>
      combineEmpty (replicate n '''' @ t # rest) = (replicate n CHR ''.'' @ t) # combineEmpty rest)
   \<and> combineEmpty (replicate n '''') = (if n = 0 then [] else [replicate n CHR ''.''])
   \<and> combineEmpty [''a'', '''', '''', ''c''] = [''a'', ''..c'']
   \<and> combineEmpty [''''] = [''.'']
   \<and> combineEmpty ['''', ''''] = [''..'']
   \<and> combineEmpty [] = []"
proof (intro conjI impI)
  assume "t \<noteq> ''''"
  then show "combineEmpty (replicate n '''' @ t # rest) =
               (replicate n CHR ''.'' @ t) # combineEmpty rest"
    by (rule combineEmpty_run)
next
  show "combineEmpty (replicate n '''') = (if n = 0 then [] else [replicate n CHR ''.''])"
    by (rule combineEmpty_trailing)
qed (simp_all add: combineEmpty_def)

theorem combineEmpty_runs_witness:
  "''b'' \<noteq> '''' \<and>
   combineEmpty (replicate 2 '''' @ ''b'' # [''x'', '''', ''c'']) =
     (replicate 2 CHR ''.'' @ ''b'') # combineEmpty [''x'', '''', ''c'']
   \<and> combineEmpty (replicate 3 '''') = [replicate 3 CHR ''.'']"
  using combineEmpty_runs [of "''b''" 2 "[''x'', '''', ''c'']"]
        combineEmpty_runs [of "''b''" 3 "[]"]
  by simp

text \<open>
  Claim C10. No segment of the output of \<open>combineEmpty\<close> is the empty string, and
  \<open>combineEmpty\<close> is idempotent.
\<close>

theorem combineEmpty_idempotent:
  "'''' \<notin> set (combineEmpty xs) \<and> combineEmpty (combineEmpty xs) = combineEmpty xs"
  using combineEmpty_output_nonempty [of xs] combineEmpty_no_empty [of "combineEmpty xs"]
  by simp

section \<open>Properties of toPath and superToPath\<close>

lemma stuck_not_Some:
  assumes "stringToPath_loop s i r = Some y"
  shows "\<not> stuck s i"
proof (rule stringToPath_loop.raw_induct [where P = "\<lambda>s i r y. \<not> stuck s i"])
  fix loop s i r y
  assume IH: "\<And>s i r y. loop s i r = Some (y :: string list) \<Longrightarrow> \<not> stuck s i"
    and step: "(case exec s i of
                  None \<Rightarrow> Some r
                | Some m \<Rightarrow>
                    loop s (m_index m + length (m_0 m))
                      (if matchKey m \<noteq> [] then r @ [matchKey m] else r)) = Some y"
  show "\<not> stuck s i"
  proof
    assume st: "stuck s i"
    then obtain m where m: "exec s i = Some m" "m_index m = i" "m_0 m = []" "matchKey m = []"
      by (auto simp: stuck_def split: option.splits)
    from step m have "loop s i r = Some y" by simp
    then have "\<not> stuck s i" by (rule IH)
    with st show False by simp
  qed
next
  show "stringToPath_loop s i r = Some y" by (rule assms)
qed

lemma stuck_diverges: "stuck s i \<Longrightarrow> stringToPath_loop s i r = None"
  using stuck_not_Some [of s i r] by (cases "stringToPath_loop s i r") auto

text \<open>
  A name followed by \<open>.[]\<close>: after the name, the lookahead alternative matches the empty
  string in front of the dot, and the loop is stuck there. So \<open>toPath\<close> returns on no path
  string that starts with a name and a dotted wildcard. Where it returns, plain names
  are missing from the result: only group 1, group 3 and \<open>[]\<close> give a key.
\<close>

lemma unescape_append_plain:
  "backslash \<notin> set xs \<Longrightarrow> unescape (xs @ ys) = xs @ unescape ys"
  by (induction xs) auto

lemma exec_name:
  assumes "name \<noteq> []" and "\<And>c. c \<in> set name \<Longrightarrow> c \<notin> set ''.[]''"
  shows "exec (name @ ''.[]'' @ r) 0 =
           Some \<lparr>m_index = 0, m_0 = name, m_1 = None, m_2 = None, m_3 = None\<rparr>"
proof -
  have "takeWhile (\<lambda>c. c \<notin> set ''.[]'') (name @ ''.[]'' @ r) = name"
    using assms(2) by (simp add: takeWhile_append2)
  with assms(1) show ?thesis
    by (simp add: exec.simps [of _ 0] rePropName_at_def)
qed

lemma stuck_at_dot_wildcard: "stuck (name @ ''.[]'' @ r) (length name)"
proof -
  have "rePropName_at (''.[]'' @ r) = Some ('''', None, None, None)"
    by (simp add: rePropName_at_def reBracket_def reLookahead_def reSeparator_def)
  then have "exec (name @ ''.[]'' @ r) (length name) =
          Some \<lparr>m_index = length name, m_0 = '''', m_1 = None, m_2 = None, m_3 = None\<rparr>"
    by (simp add: exec.simps [of _ "length name"])
  then show ?thesis by (simp add: stuck_def matchKey_def)
qed

lemma objectPrototype_no_dot: "s \<in> set objectPrototype \<Longrightarrow> CHR ''.'' \<notin> set s"
  by (auto simp: objectPrototype_def)

lemma toPath_dot_wildcard_diverges:
  assumes "name \<noteq> []" and "\<And>c. c \<in> set name \<Longrightarrow> c \<notin> set ''.[]'' \<and> c \<noteq> backslash"
  shows "toPath (PathStr (name @ ''.[]'' @ rest)) = None"
proof -
  have p: "name @ ''.[]'' @ rest \<notin> set objectPrototype"
    using objectPrototype_no_dot [of "name @ ''.[]'' @ rest"] by auto
  let ?s = "name @ ''.[]'' @ unescape rest"
  from assms(2) have "backslash \<notin> set name" by blast
  then have u: "unescape (name @ ''.[]'' @ rest) = ?s"
    by (simp add: unescape_append_plain)
  have e: "exec ?s 0 = Some \<lparr>m_index = 0, m_0 = name, m_1 = None, m_2 = None, m_3 = None\<rparr>"
    by (rule exec_name) (use assms in auto)
  have "stuck ?s (length name)" by (rule stuck_at_dot_wildcard)
  then have d: "stringToPath_loop ?s (length name) r = None" for r
    by (rule stuck_diverges)
  have "stringToPath_loop ?s 0 [] = None"
    by (subst stringToPath_loop.simps, subst e) (simp only: option.case rmatch.simps add_0 d)
  with u p show ?thesis by (simp add: toPath_def stringToPath_def)
qed

lemma toPath_drops_plain_names:
  "toPath (PathStr ''a.b.c'') = Some (Keys [])
   \<and> toPath (PathStr ''a[0].b'') = Some (Keys [''0''])"
proof -
  have "toPath (PathStr ''a.b.c'') = Some (Keys [])" by code_simp
  moreover have "toPath (PathStr ''a[0].b'') = Some (Keys [''0''])" by code_simp
  ultimately show ?thesis by (simp only: simp_thms)
qed

lemma stringToPath_loop_nonempty:
  assumes "stringToPath_loop s i r = Some ks"
  shows "'''' \<notin> set r \<longrightarrow> '''' \<notin> set ks"
proof (rule stringToPath_loop.raw_induct
         [where P = "\<lambda>s i r ks. '''' \<notin> set r \<longrightarrow> '''' \<notin> set ks"])
  fix loop s i r ks
  assume IH: "\<And>s i r ks. loop s i r = Some (ks :: string list) \<Longrightarrow>
                 '''' \<notin> set r \<longrightarrow> '''' \<notin> set ks"
    and step: "(case exec s i of
                  None \<Rightarrow> Some r
                | Some m \<Rightarrow>
                    loop s (m_index m + length (m_0 m))
                      (if matchKey m \<noteq> [] then r @ [matchKey m] else r)) = Some ks"
  show "'''' \<notin> set r \<longrightarrow> '''' \<notin> set ks"
  proof (cases "exec s i")
    case None
    with step show ?thesis by simp
  next
    case (Some m)
    with step have "loop s (m_index m + length (m_0 m))
                      (if matchKey m \<noteq> [] then r @ [matchKey m] else r) = Some ks"
      by simp
    from IH [OF this] show ?thesis by (auto split: if_splits)
  qed
next
  show "stringToPath_loop s i r = Some ks" by (rule assms)
qed

lemma toPath_string_nonempty:
  "toPath (PathStr s) = Some (Keys keys) \<Longrightarrow> '''' \<notin> set keys"
  using stringToPath_loop_nonempty [of "unescape s" 0 "[]" keys]
  by (auto simp: toPath_def stringToPath_def split: if_splits)

text \<open>
  Claim C8. \<open>combineEmpty\<close> returns a list without empty segments unchanged; so it
  returns the tokenization of a path unchanged when that has no empty segment. The
  tokenization of a path string never has one (\<open>stringToPath\<close> pushes non-empty keys only).
\<close>

theorem combineEmpty_identity:
  "('''' \<notin> set xs \<longrightarrow> combineEmpty xs = xs)
   \<and> (toPath p = Some (Keys keys) \<and> '''' \<notin> set keys \<longrightarrow> combineEmpty keys = keys)
   \<and> (toPath (PathStr s) = Some (Keys keys) \<longrightarrow> combineEmpty keys = keys)"
  using combineEmpty_no_empty toPath_string_nonempty by blast

theorem combineEmpty_identity_witness:
  "'''' \<notin> set [''a'', ''b'', ''c''] \<and> combineEmpty [''a'', ''b'', ''c''] = [''a'', ''b'', ''c'']
   \<and> toPath (PathArr [''a'', ''[]'', ''b'']) = Some (Keys [''a'', ''[]'', ''b''])
   \<and> combineEmpty [''a'', ''[]'', ''b''] = [''a'', ''[]'', ''b'']
   \<and> toPath (PathStr ''[0][\"x.y\"][]'') = Some (Keys [''0'', ''x.y'', ''[]''])
   \<and> combineEmpty [''0'', ''x.y'', ''[]''] = [''0'', ''x.y'', ''[]'']"
proof -
  have a: "toPath (PathArr [''a'', ''[]'', ''b'']) = Some (Keys [''a'', ''[]'', ''b''])"
    by (simp add: toPath_def)
  have b: "toPath (PathStr ''[0][\"x.y\"][]'') = Some (Keys [''0'', ''x.y'', ''[]''])"
    by code_simp
  show ?thesis
    using combineEmpty_identity [of "[''a'', ''b'', ''c'']" "PathArr [''a'', ''[]'', ''b'']"
            "[''a'', ''[]'', ''b'']" "''[0][\"x.y\"][]''"]
          combineEmpty_identity [of "[]" "PathNull" "[''0'', ''x.y'', ''[]'']" "''[0][\"x.y\"][]''"]
          a b
    by simp
qed

text \<open>
  Claim C7. A \<open>null\<close> or absent path is tokenized to the empty sequence, by \<open>toPath\<close>
  and by \<open>superToPath\<close>. The claim that \<open>"a.[].[].c"\<close> is tokenized to
  \<open>["a","[]","[]","c"]\<close> fails: \<open>toPath\<close> does not return on this string (after \<open>a\<close>,
  \<open>exec\<close> matches the empty string at index 1 and leaves \<open>lastIndex\<close> there), and
  \<open>superToPath\<close> splits it into \<open>"a"\<close> and \<open>"[].c"\<close> and returns what lodash's \<open>toPath\<close>
  makes of the two pieces, with one \<open>"[]"\<close> between them.
\<close>

theorem tokenizer_null_and_consecutive_wildcards:
  "toPath PathNull = Some (Keys [])
   \<and> superToPath lodash_toPath PathNull = []
   \<and> toPath (PathStr ''a.[].[].c'') = None
   \<and> superToPath lodash_toPath (PathStr ''a.[].[].c'') =
       combineEmpty (lodash_toPath (PathStr ''a'')) @ [''[]'']
       @ combineEmpty (lodash_toPath (PathStr ''[].c''))"
proof (intro conjI)
  show "toPath PathNull = Some (Keys [])" by (simp add: toPath_def stringToPath_def)
  show "superToPath lodash_toPath PathNull = []" by (simp add: superToPath_def)
  show "toPath (PathStr ''a.[].[].c'') = None"
    using toPath_dot_wildcard_diverges [of "''a''" "''.[].c''"] by simp
  show "superToPath lodash_toPath (PathStr ''a.[].[].c'') =
       combineEmpty (lodash_toPath (PathStr ''a'')) @ [''[]'']
       @ combineEmpty (lodash_toPath (PathStr ''[].c''))"
    by (simp add: superToPath_def upt_rec)
qed

section \<open>Properties of get\<close>

lemma get_loop_deref:
  "get_loop cur keys d =
     (if keys = [] then (if cur = JUndefined then d else cur)
      else if isNullish (deref cur keys) then d else deref cur keys)"
proof (induction keys arbitrary: cur)
  case Nil
  show ?case by simp
next
  case (Cons k ks)
  show ?case
  proof (cases "isNullish cur")
    case True
    then show ?thesis by (simp add: isNullish_def)
  next
    case notnull: False
    show ?thesis
    proof (cases ks)
      case Nil
      with notnull show ?thesis by (auto simp: isNullish_def Let_def)
    next
      case (Cons k2 ks2)
      show ?thesis
      proof (cases "isNullish (getProp cur k)")
        case True
        with notnull Cons show ?thesis by (simp add: Let_def isNullish_def)
      next
        case False
        have "get_loop (getProp cur k) ks d =
                (if isNullish (deref (getProp cur k) ks) then d else deref (getProp cur k) ks)"
          using Cons.IH [of "getProp cur k"] Cons by simp
        with notnull False show ?thesis by (simp add: Let_def)
      qed
    qed
  qed
qed

lemma processWildcardGet_plain:
  "i < length keys \<Longrightarrow> ''[]'' \<notin> set (drop i keys) \<Longrightarrow>
   processWildcardGet cur keys i =
     (if deref cur (drop i keys) \<noteq> JUndefined then JArr [deref cur (drop i keys)]
      else JUndefined)"
proof (induction "length keys - i" arbitrary: cur i)
  case 0
  then show ?case by simp
next
  case (Suc n)
  from Suc.prems have d: "drop i keys = keys ! i # drop (Suc i) keys"
    by (simp add: Cons_nth_drop_Suc)
  with Suc.prems have plain: "keys ! i \<noteq> ''[]''" and rest: "''[]'' \<notin> set (drop (Suc i) keys)"
    by auto
  show ?case
  proof (cases "isNullish cur")
    case True
    then show ?thesis
      by (subst processWildcardGet.simps) (simp add: d)
  next
    case False
    show ?thesis
    proof (cases "i = length keys - 1")
      case True
      with Suc.prems have single: "drop i keys = [keys ! i]" using d by simp
      have "processWildcardGet cur keys i =
              (if getProp cur (keys ! i) \<noteq> JUndefined then JArr [getProp cur (keys ! i)]
               else JUndefined)"
        using False True plain Suc.prems(1) by (subst processWildcardGet.simps) simp
      with False show ?thesis by (simp add: single)
    next
      case last: False
      with Suc.prems have lt: "Suc i < length keys" by simp
      with Suc.hyps have n: "n = length keys - Suc i" by simp
      have "processWildcardGet (getProp cur (keys ! i)) keys (Suc i) =
              (if deref (getProp cur (keys ! i)) (drop (Suc i) keys) \<noteq> JUndefined
               then JArr [deref (getProp cur (keys ! i)) (drop (Suc i) keys)] else JUndefined)"
        by (rule Suc.hyps(1) [OF n lt rest])
      with False last plain Suc.prems show ?thesis
        by (subst processWildcardGet.simps) (simp add: d)
    qed
  qed
qed

lemma processWildcardGet_wildcard:
  assumes "index < length keys" "keys ! index = ''[]''"
  shows "processWildcardGet (JArr items) keys index =
           (let result = filter (\<lambda>item. item \<noteq> JUndefined)
                           (map (\<lambda>item. processWildcardGet item keys (index + 1)) items)
            in if result \<noteq> [] then JArr result else JUndefined)"
  using assms by (subst processWildcardGet.simps) (simp add: isNullish_def Let_def)

lemma processWildcardGet_prefix:
  assumes keys: "keys = pre @ ''[]'' # post" and pre: "''[]'' \<notin> set pre"
  shows "i \<le> length pre \<Longrightarrow>
         processWildcardGet cur keys i =
           (case deref cur (drop i pre) of
              JArr items \<Rightarrow> processWildcardGet (JArr items) keys (length pre)
            | _ \<Rightarrow> JUndefined)"
proof (induction "length pre - i" arbitrary: cur i)
  case 0
  then have i: "i = length pre" by simp
  have at: "keys ! length pre = ''[]''" "length pre < length keys" using keys by simp_all
  show ?case
  proof (cases cur)
    case (JArr items)
    with i show ?thesis by simp
  qed (use i at in \<open>simp_all add: processWildcardGet.simps [of _ keys "length pre"] isNullish_def\<close>)
next
  case (Suc n)
  then have lt: "i < length pre" by simp
  then have d: "drop i pre = pre ! i # drop (Suc i) pre"
    by (simp add: Cons_nth_drop_Suc)
  from lt keys have ki: "keys ! i = pre ! i" by (simp add: nth_append)
  from lt pre have plain: "pre ! i \<noteq> ''[]''" by (metis nth_mem)
  from lt keys have notlast: "i \<noteq> length keys - 1" "i < length keys" by simp_all
  show ?case
  proof (cases "isNullish cur")
    case True
    then show ?thesis
      by (subst processWildcardGet.simps) (simp add: d)
  next
    case False
    from Suc.hyps(2) lt have n: "n = length pre - Suc i" by simp
    from lt have le: "Suc i \<le> length pre" by simp
    note IH = Suc.hyps(1) [OF n le, of "getProp cur (pre ! i)"]
    from False notlast plain ki IH show ?thesis
      by (subst processWildcardGet.simps) (simp add: d)
  qed
qed

lemma filter_map_leaves:
  "filter (\<lambda>item. item \<noteq> JUndefined)
     (map (\<lambda>item. if f item \<noteq> JUndefined then JArr [f item] else JUndefined) items) =
   map (\<lambda>v. JArr [v]) (filter (\<lambda>v. v \<noteq> JUndefined) (map f items))"
  by (induction items) auto

lemma processWildcardGet_one_wildcard:
  assumes pre: "''[]'' \<notin> set pre" and post: "''[]'' \<notin> set post" and ne: "post \<noteq> []"
  shows "processWildcardGet s (pre @ ''[]'' # post) 0 =
     (case deref s pre of
        JArr items \<Rightarrow>
          (let leaves = filter (\<lambda>v. v \<noteq> JUndefined) (map (\<lambda>item. deref item post) items)
           in if leaves = [] then JUndefined else JArr (map (\<lambda>v. JArr [v]) leaves))
      | _ \<Rightarrow> JUndefined)"
proof -
  let ?keys = "pre @ ''[]'' # post"
  have item: "processWildcardGet item ?keys (Suc (length pre)) =
                (if deref item post \<noteq> JUndefined then JArr [deref item post] else JUndefined)"
    for item
    using processWildcardGet_plain [of "length pre + 1" ?keys item] post ne by simp
  have level: "processWildcardGet (JArr items) ?keys (length pre) =
      (let leaves = filter (\<lambda>v. v \<noteq> JUndefined) (map (\<lambda>item. deref item post) items)
       in if leaves = [] then JUndefined else JArr (map (\<lambda>v. JArr [v]) leaves))" for items
    using processWildcardGet_wildcard [of "length pre" ?keys items]
    by (simp add: item filter_map_leaves Let_def)
  have "processWildcardGet s ?keys 0 =
          (case deref s (drop 0 pre) of
             JArr items \<Rightarrow> processWildcardGet (JArr items) ?keys (length pre)
           | _ \<Rightarrow> JUndefined)"
    by (rule processWildcardGet_prefix [OF refl pre]) simp
  then show ?thesis
    by (simp add: level split: jsval.splits)
qed

text \<open>
  Every result of \<open>processWildcardGet\<close> has one array level for each wildcard segment it
  passes and one more around the leaf, which the last key wraps in an array.
\<close>

lemma processWildcardGet_nesting:
  "index < length keys \<Longrightarrow> processWildcardGet current keys index \<noteq> JUndefined \<Longrightarrow>
   nested (Suc (count_list (drop index keys) ''[]'')) (processWildcardGet current keys index)"
proof (induction "length keys - index" arbitrary: current index)
  case 0
  then show ?case by simp
next
  case (Suc n)
  from Suc.prems(1) have d: "drop index keys = keys ! index # drop (Suc index) keys"
    by (simp add: Cons_nth_drop_Suc)
  from Suc.prems(2) have notnull: "\<not> isNullish current"
    by (subst (asm) processWildcardGet.simps) (auto split: if_splits)
  show ?case
  proof (cases "keys ! index = ''[]''")
    case False
    show ?thesis
    proof (cases "index = length keys - 1")
      case True
      with Suc.prems(1) d have single: "drop index keys = [keys ! index]" by simp
      have "processWildcardGet current keys index =
              (if getProp current (keys ! index) \<noteq> JUndefined
               then JArr [getProp current (keys ! index)] else JUndefined)"
        using False True notnull Suc.prems(1) by (subst processWildcardGet.simps) simp
      with Suc.prems(2)
      have "processWildcardGet current keys index = JArr [getProp current (keys ! index)]"
        by (simp split: if_splits)
      with False show ?thesis by (simp add: single)
    next
      case notlast: False
      with Suc.prems(1) have lt: "Suc index < length keys" by simp
      from Suc.hyps(2) lt have n: "n = length keys - Suc index" by simp
      have step: "processWildcardGet current keys index =
                    processWildcardGet (getProp current (keys ! index)) keys (Suc index)"
        using False notlast notnull Suc.prems(1) by (subst processWildcardGet.simps) simp
      with Suc.prems(2)
      have "processWildcardGet (getProp current (keys ! index)) keys (Suc index) \<noteq> JUndefined"
        by simp
      from Suc.hyps(1) [OF n lt this] step False show ?thesis by (simp add: d)
    qed
  next
    case True
    from Suc.prems(2) True notnull obtain items where cur: "current = JArr items"
      by (subst (asm) processWildcardGet.simps) (auto split: if_splits jsval.splits)
    define f where "f = (\<lambda>item. processWildcardGet item keys (index + 1))"
    define rs where "rs = filter (\<lambda>item. item \<noteq> JUndefined) (map f items)"
    have res: "processWildcardGet current keys index = (if rs \<noteq> [] then JArr rs else JUndefined)"
      unfolding cur rs_def f_def
      using processWildcardGet_wildcard [OF Suc.prems(1) True, of items] by (simp add: Let_def)
    with Suc.prems(2) have ne: "rs \<noteq> []" by (auto split: if_splits)
    have "nested (Suc (count_list (drop (Suc index) keys) ''[]'')) r" if "r \<in> set rs" for r
    proof -
      from that obtain item where r: "r = f item" and def: "f item \<noteq> JUndefined"
        by (auto simp: rs_def)
      have lt: "Suc index < length keys"
      proof (rule ccontr)
        assume "\<not> Suc index < length keys"
        then have "f item = JUndefined"
          by (simp add: f_def processWildcardGet.simps [of item keys "Suc index"])
        with def show False by simp
      qed
      from Suc.hyps(2) lt have n: "n = length keys - Suc index" by simp
      from def have "processWildcardGet item keys (Suc index) \<noteq> JUndefined" by (simp add: f_def)
      from Suc.hyps(1) [OF n lt this] show ?thesis by (simp add: r f_def)
    qed
    then have "list_all (nested (Suc (count_list (drop (Suc index) keys) ''[]''))) rs"
      by (simp add: list_all_iff)
    with ne res True show ?thesis by (simp add: d)
  qed
qed

lemma get_array_path:
  "get s (PathArr keys) d =
     Some (Inr (if ''[]'' \<in> set keys
           then (let result = processWildcardGet s keys 0
                 in if result \<noteq> JUndefined \<and> (case result of JArr r \<Rightarrow> length r > 0 | _ \<Rightarrow> False)
                    then result
                    else (if d \<noteq> JUndefined then d else JArr []))
           else get_loop s keys d))"
  by (simp add: get_def toPath_def)

lemma get_tokenized: "toPath p = Some (Keys keys) \<Longrightarrow> get s p d = get s (PathArr keys) d"
  by (simp add: get_def toPath_def)

lemma get_inherited: "s \<in> set objectPrototype \<Longrightarrow> get object (PathStr s) d = Some (Inl TypeError)"
  by (simp add: get_def toPath_def stringToPath_def)

text \<open>
  What \<open>get\<close> returns for a path that \<open>toPath\<close> tokenizes. Without a wildcard segment:
  for an empty tokenization the source itself, replaced by the default only when it is
  \<open>undefined\<close>; otherwise the direct nested dereference, replaced by the default when it
  is \<open>null\<close> or \<open>undefined\<close>.
\<close>

lemma get_plain_tokens:
  "toPath p = Some (Keys keys) \<Longrightarrow> ''[]'' \<notin> set keys \<Longrightarrow>
   get s p d =
     Some (Inr (if keys = [] then (if s = JUndefined then d else s)
                else if isNullish (deref s keys) then d else deref s keys))"
  by (simp add: get_tokenized get_array_path get_loop_deref)

text \<open>
  With exactly one wildcard segment followed by at least one plain segment: for the
  elements of the array found at the wildcard whose remaining path resolves, in source
  order, the one-element arrays of their leaf values (the last key wraps the leaf), and the
  default (or \<open>[]\<close>) when no element resolves or no array is found there.
\<close>

lemma get_one_wildcard:
  assumes q: "toPath q = Some (Keys (pre @ ''[]'' # post))"
    and pre: "''[]'' \<notin> set pre" and post: "''[]'' \<notin> set post" and ne: "post \<noteq> []"
  shows "get s q d =
        Some (Inr (case deref s pre of
                JArr items \<Rightarrow>
                  (let leaves = filter (\<lambda>v. v \<noteq> JUndefined) (map (\<lambda>item. deref item post) items)
                   in if leaves = [] then (if d \<noteq> JUndefined then d else JArr [])
                      else JArr (map (\<lambda>v. JArr [v]) leaves))
              | _ \<Rightarrow> (if d \<noteq> JUndefined then d else JArr [])))"
proof -
  define leaves where
    "leaves = (\<lambda>items. filter (\<lambda>v. v \<noteq> JUndefined) (map (\<lambda>item. deref item post) items))"
  have w: "processWildcardGet s (pre @ ''[]'' # post) 0 =
     (case deref s pre of
        JArr items \<Rightarrow>
          if leaves items = [] then JUndefined else JArr (map (\<lambda>v. JArr [v]) (leaves items))
      | _ \<Rightarrow> JUndefined)"
    unfolding leaves_def using pre post ne
    by (simp add: processWildcardGet_one_wildcard [unfolded Let_def])
  from q have "get s q d = get s (PathArr (pre @ ''[]'' # post)) d"
    by (simp add: get_tokenized)
  also have "\<dots> =
        Some (Inr (case deref s pre of
                JArr items \<Rightarrow>
                  if leaves items = [] then (if d \<noteq> JUndefined then d else JArr [])
                  else JArr (map (\<lambda>v. JArr [v]) (leaves items))
              | _ \<Rightarrow> (if d \<noteq> JUndefined then d else JArr [])))"
    by (simp add: get_array_path w Let_def split: jsval.splits)
  finally show ?thesis
    unfolding leaves_def Let_def .
qed

text \<open>
  With any number of wildcard segments: when the resolver has a result, \<open>get\<close> returns
  it, and it has one array level more than the path has wildcard segments.
\<close>

lemma get_nesting:
  assumes p: "toPath p = Some (Keys keys)" and w: "''[]'' \<in> set keys"
    and r: "processWildcardGet object keys 0 \<noteq> JUndefined"
  shows "get object p d = Some (Inr (processWildcardGet object keys 0))
         \<and> nested (Suc (count_list keys ''[]'')) (processWildcardGet object keys 0)"
proof -
  from w have "0 < length keys" by (cases keys) simp_all
  from processWildcardGet_nesting [OF this r]
  have n: "nested (Suc (count_list keys ''[]'')) (processWildcardGet object keys 0)" by simp
  then obtain items where "processWildcardGet object keys 0 = JArr items" "items \<noteq> []"
    by (cases "processWildcardGet object keys 0") simp_all
  with p w have "get object p d = Some (Inr (processWildcardGet object keys 0))"
    by (simp add: get_def)
  with n show ?thesis by simp
qed

lemma get_wildcard_no_result:
  "toPath p = Some (Keys keys) \<Longrightarrow> ''[]'' \<in> set keys \<Longrightarrow>
   processWildcardGet object keys 0 = JUndefined \<Longrightarrow>
   get object p d = Some (Inr (if d \<noteq> JUndefined then d else JArr []))"
  by (simp add: get_def)

text \<open>
  Claim C1 says that the result of \<open>get\<close> nests one array level per wildcard segment: two
  wildcards give an array of arrays of leaf values, one wildcard an array of leaf values,
  no wildcard the bare leaf value, and \<open>get(nestedObject, "a.[].b.[].c")\<close> is
  \<open>[[42,43],[99,100]]\<close>, which the tests of the repository expect too. The code does not
  return on this call: \<open>toPath\<close> loops on the string \<open>"a.[].b.[].c"\<close>. On the tokenized
  path \<open>["a","[]","b","[]","c"]\<close>, and on a path string that \<open>toPath\<close> tokenizes so, the
  resolver returns \<open>[[[42],[43]],[[99],[100]]]\<close>, one level too many, since its last key
  wraps the leaf in an array (\<open>get_nesting\<close> above: always one level more than there are
  wildcards); on the object of the tests with a missing value it returns
  \<open>[[[42]],[[99]]]\<close> where the tests expect \<open>[[42],[99]]\<close>. The second \<open>get\<close> of the
  repository returns the flat \<open>[42,43,99,100]\<close>. With the one wildcard of
  \<open>["a","[]","b","0","c"]\<close> the first \<open>get\<close> returns \<open>[[42],[99]]\<close> and the second
  \<open>[42,99]\<close>; without a wildcard both return the bare leaf value.
\<close>

theorem get_nesting_examples:
  "get nestedObject (PathStr ''a.[].b.[].c'') JUndefined = None
   \<and> get nestedObject (PathArr [''a'', ''[]'', ''b'', ''[]'', ''c'']) JUndefined =
       Some (Inr (JArr [JArr [JArr [JNum 42], JArr [JNum 43]],
                        JArr [JArr [JNum 99], JArr [JNum 100]]]))
   \<and> get nestedObject (PathStr ''[\"a\"][][\"b\"][][\"c\"]'') JUndefined =
       Some (Inr (JArr [JArr [JArr [JNum 42], JArr [JNum 43]],
                        JArr [JArr [JNum 99], JArr [JNum 100]]]))
   \<and> get nestedObject (PathArr [''a'', ''[]'', ''b'', ''[]'', ''c'']) JUndefined \<noteq>
       Some (Inr (JArr [JArr [JNum 42, JNum 43], JArr [JNum 99, JNum 100]]))
   \<and> get_push nestedObject (PathArr [''a'', ''[]'', ''b'', ''[]'', ''c'']) JUndefined =
       Some (Inr (JArr [JNum 42, JNum 43, JNum 99, JNum 100]))
   \<and> get objectWithMissing (PathArr [''a'', ''[]'', ''b'', ''[]'', ''c'']) JUndefined =
       Some (Inr (JArr [JArr [JArr [JNum 42]], JArr [JArr [JNum 99]]]))
   \<and> get nestedObject (PathArr [''a'', ''[]'', ''b'', ''0'', ''c'']) JUndefined =
       Some (Inr (JArr [JArr [JNum 42], JArr [JNum 99]]))
   \<and> get_push nestedObject (PathArr [''a'', ''[]'', ''b'', ''0'', ''c'']) JUndefined =
       Some (Inr (JArr [JNum 42, JNum 99]))
   \<and> get nestedObject (PathArr [''a'', ''0'', ''b'', ''1'', ''c'']) JUndefined =
       Some (Inr (JNum 43))
   \<and> get_push nestedObject (PathArr [''a'', ''0'', ''b'', ''1'', ''c'']) JUndefined =
       Some (Inr (JNum 43))"
proof -
  have "toPath (PathStr ''a.[].b.[].c'') = None"
    using toPath_dot_wildcard_diverges [of "''a''" "''.b.[].c''"] by simp
  then have "get nestedObject (PathStr ''a.[].b.[].c'') JUndefined = None"
    by (simp add: get_def)
  moreover
  have "get nestedObject (PathArr [''a'', ''[]'', ''b'', ''[]'', ''c'']) JUndefined =
       Some (Inr (JArr [JArr [JArr [JNum 42], JArr [JNum 43]],
                        JArr [JArr [JNum 99], JArr [JNum 100]]]))"
    by code_simp
  moreover
  have "get nestedObject (PathStr ''[\"a\"][][\"b\"][][\"c\"]'') JUndefined =
       Some (Inr (JArr [JArr [JArr [JNum 42], JArr [JNum 43]],
                        JArr [JArr [JNum 99], JArr [JNum 100]]]))"
    by code_simp
  moreover
  have "get_push nestedObject (PathArr [''a'', ''[]'', ''b'', ''[]'', ''c'']) JUndefined =
       Some (Inr (JArr [JNum 42, JNum 43, JNum 99, JNum 100]))"
    by code_simp
  moreover
  have "get objectWithMissing (PathArr [''a'', ''[]'', ''b'', ''[]'', ''c'']) JUndefined =
       Some (Inr (JArr [JArr [JArr [JNum 42]], JArr [JArr [JNum 99]]]))"
    by code_simp
  moreover
  have "get nestedObject (PathArr [''a'', ''[]'', ''b'', ''0'', ''c'']) JUndefined =
       Some (Inr (JArr [JArr [JNum 42], JArr [JNum 99]]))"
    by code_simp
  moreover
  have "get_push nestedObject (PathArr [''a'', ''[]'', ''b'', ''0'', ''c'']) JUndefined =
       Some (Inr (JArr [JNum 42, JNum 99]))"
    by code_simp
  moreover
  have "get nestedObject (PathArr [''a'', ''0'', ''b'', ''1'', ''c'']) JUndefined =
       Some (Inr (JNum 43))"
    by code_simp
  moreover
  have "get_push nestedObject (PathArr [''a'', ''0'', ''b'', ''1'', ''c'']) JUndefined =
       Some (Inr (JNum 43))"
    by code_simp
  ultimately show ?thesis by simp
qed

text \<open>
  Claim C4. When the wildcard resolution of a tokenized path produces no result, \<open>get\<close>
  returns the default, or \<open>[]\<close> when none is given (\<open>get_wildcard_no_result\<close> above). The
  two calls of the claim do not reach the resolver: \<open>toPath\<close> does not return on the string
  \<open>"a.[].b.c"\<close>. On the tokenized path \<open>["a","[]","b","c"]\<close> they return \<open>"fallback"\<close> and
  \<open>[]\<close>.
\<close>

theorem get_wildcard_default_examples:
  "get (JObj [(''a'', JObj [(''b'', JObj [(''c'', JNum 1)])])]) (PathStr ''a.[].b.c'')
     (JStr ''fallback'') = None
   \<and> get (JObj [(''a'', JArr [JObj []])]) (PathStr ''a.[].b.c'') JUndefined = None
   \<and> get (JObj [(''a'', JObj [(''b'', JObj [(''c'', JNum 1)])])])
        (PathArr [''a'', ''[]'', ''b'', ''c'']) (JStr ''fallback'') =
        Some (Inr (JStr ''fallback''))
   \<and> get (JObj [(''a'', JArr [JObj []])]) (PathArr [''a'', ''[]'', ''b'', ''c'']) JUndefined =
        Some (Inr (JArr []))"
proof -
  have "toPath (PathStr ''a.[].b.c'') = None"
    using toPath_dot_wildcard_diverges [of "''a''" "''.b.c''"] by simp
  then have "get object (PathStr ''a.[].b.c'') d = None" for object d
    by (simp add: get_def)
  moreover have "get (JObj [(''a'', JObj [(''b'', JObj [(''c'', JNum 1)])])])
        (PathArr [''a'', ''[]'', ''b'', ''c'']) (JStr ''fallback'') =
        Some (Inr (JStr ''fallback''))"
    by code_simp
  moreover have "get (JObj [(''a'', JArr [JObj []])]) (PathArr [''a'', ''[]'', ''b'', ''c''])
        JUndefined = Some (Inr (JArr []))"
    by code_simp
  ultimately show ?thesis by (simp only: simp_thms)
qed

text \<open>
  Claim C5 says that a wildcard level over an array of which \<open>K\<close> elements resolve
  (\<open>0 \<le> K\<close>) is a sequence of \<open>K\<close> elements. For \<open>K = 0\<close> the level is \<open>undefined\<close>, not an
  empty sequence: with a default \<open>get\<close> returns the default, and a nested level without
  results is dropped from the level above.
\<close>

theorem wildcard_level_counterexample:
  "processWildcardGet (JArr [JObj []]) [''[]'', ''c''] 0 = JUndefined
   \<and> processWildcardGet (JArr [JObj []]) [''[]'', ''c''] 0 \<noteq> JArr []
   \<and> get (JArr [JObj []]) (PathArr [''[]'', ''c'']) (JStr ''fallback'') =
       Some (Inr (JStr ''fallback''))
   \<and> get (JObj [(''a'', JArr [JObj [(''b'', JArr [JObj []])],
                                JObj [(''b'', JArr [JObj [(''c'', JNum 1)]])]])])
        (PathArr [''a'', ''[]'', ''b'', ''[]'', ''c'']) JUndefined =
       Some (Inr (JArr [JArr [JArr [JNum 1]]]))"
proof -
  have "processWildcardGet (JArr [JObj []]) [''[]'', ''c''] 0 = JUndefined" by code_simp
  moreover
  have "get (JArr [JObj []]) (PathArr [''[]'', ''c'']) (JStr ''fallback'') =
          Some (Inr (JStr ''fallback''))" by code_simp
  moreover
  have "get (JObj [(''a'', JArr [JObj [(''b'', JArr [JObj []])],
                                JObj [(''b'', JArr [JObj [(''c'', JNum 1)]])]])])
        (PathArr [''a'', ''[]'', ''b'', ''[]'', ''c'']) JUndefined =
       Some (Inr (JArr [JArr [JArr [JNum 1]]]))" by code_simp
  ultimately show ?thesis by simp
qed

text \<open>
  Claim C5, as amended. At a wildcard segment over an array of which exactly \<open>K\<close> elements
  resolve for the rest of the path: if \<open>K \<ge> 1\<close> the result of the level is an array of
  exactly \<open>K\<close> elements, the results of the resolving elements in source order, with
  nothing in the place of the others; if \<open>K = 0\<close> the level has no result (\<open>undefined\<close>).
\<close>

theorem wildcard_level_cardinality:
  assumes "index < length keys" and "keys ! index = ''[]''"
    and "K = length (filter (\<lambda>item. processWildcardGet item keys (index + 1) \<noteq> JUndefined) items)"
  shows "if K = 0 then processWildcardGet (JArr items) keys index = JUndefined
         else (\<exists>rs. processWildcardGet (JArr items) keys index = JArr rs \<and> length rs = K
                 \<and> rs = map (\<lambda>item. processWildcardGet item keys (index + 1))
                          (filter (\<lambda>item. processWildcardGet item keys (index + 1) \<noteq> JUndefined)
                             items))"
proof -
  define f where "f = (\<lambda>item. processWildcardGet item keys (index + 1))"
  have fm: "filter (\<lambda>item. item \<noteq> JUndefined) (map f items) =
            map f (filter (\<lambda>item. f item \<noteq> JUndefined) items)"
    by (induction items) simp_all
  have "processWildcardGet (JArr items) keys index =
          (let result = filter (\<lambda>item. item \<noteq> JUndefined) (map f items)
           in if result \<noteq> [] then JArr result else JUndefined)"
    unfolding f_def by (rule processWildcardGet_wildcard [OF assms(1,2)])
  then have "processWildcardGet (JArr items) keys index =
          (if filter (\<lambda>item. f item \<noteq> JUndefined) items = [] then JUndefined
           else JArr (map f (filter (\<lambda>item. f item \<noteq> JUndefined) items)))"
    unfolding Let_def fm by simp
  moreover have "K = length (filter (\<lambda>item. f item \<noteq> JUndefined) items)"
    using assms(3) by (simp add: f_def)
  ultimately have "if K = 0 then processWildcardGet (JArr items) keys index = JUndefined
         else (\<exists>rs. processWildcardGet (JArr items) keys index = JArr rs \<and> length rs = K
                 \<and> rs = map f (filter (\<lambda>item. f item \<noteq> JUndefined) items))"
    by simp
  then show ?thesis unfolding f_def .
qed

text \<open>Two of three elements resolve; none of two resolves.\<close>

theorem wildcard_level_cardinality_witness:
  "processWildcardGet
     (JArr [JObj [(''c'', JNum 1)], JObj [], JObj [(''c'', JNum 3)]]) [''[]'', ''c''] 0 =
     JArr [JArr [JNum 1], JArr [JNum 3]]
   \<and> processWildcardGet (JArr [JObj [], JObj []]) [''[]'', ''c''] 0 = JUndefined"
proof -
  let ?items = "[JObj [(''c'', JNum 1)], JObj [], JObj [(''c'', JNum 3)]]"
  have v1: "processWildcardGet (JObj [(''c'', JNum 1)]) [''[]'', ''c''] (Suc 0) = JArr [JNum 1]"
    by code_simp
  have v2: "processWildcardGet (JObj []) [''[]'', ''c''] (Suc 0) = JUndefined"
    by code_simp
  have v3: "processWildcardGet (JObj [(''c'', JNum 3)]) [''[]'', ''c''] (Suc 0) = JArr [JNum 3]"
    by code_simp
  have k: "0 < length [''[]'', ''c'']" "[''[]'', ''c''] ! 0 = ''[]''" by simp_all
  have "processWildcardGet (JArr ?items) [''[]'', ''c''] 0 = JArr [JArr [JNum 1], JArr [JNum 3]]"
    using wildcard_level_cardinality [OF k, of 2 ?items] by (simp add: v1 v2 v3)
  moreover
  have "processWildcardGet (JArr [JObj [], JObj []]) [''[]'', ''c''] 0 = JUndefined"
    using wildcard_level_cardinality [OF k, of 0 "[JObj [], JObj []]"] by (simp add: v2)
  ultimately show ?thesis by simp
qed

text \<open>
  Claim C6 says that for a path without wildcard segment \<open>get\<close> returns the direct nested
  dereference of the source by the path's segments, and the default whenever a step of the
  walk, the source itself included, is \<open>null\<close> or absent; and that \<open>pick\<close> of a \<open>null\<close>
  or absent source is the empty object. The part on \<open>pick\<close> holds, for every argument
  \<open>paths\<close>, and so does \<open>get(undefined, "a.b.c", "dflt") = "dflt"\<close>. The part on \<open>get\<close>
  fails on the paths of the tests of the repository. \<open>toPath\<close> drops plain names, so
  \<open>"a.b.c"\<close>, \<open>"x"\<close> and \<open>"z.y"\<close> are tokenized to the empty sequence and \<open>"a[0].b[0].c"\<close>
  to \<open>["0","0"]\<close>; and for an empty sequence of keys \<open>get\<close> returns the source itself
  unless it is \<open>undefined\<close>. Hence \<open>get(null, "a.b.c", "not found")\<close> is \<open>null\<close>, where
  the tests expect \<open>"not found"\<close>; \<open>get(testObject, "x")\<close> and
  \<open>get(testObject, "z.y", "not found")\<close> are \<open>testObject\<close>, where the tests expect \<open>100\<close>
  and \<open>"not found"\<close>; and \<open>get(testObject, "a[0].b[0].c")\<close> is \<open>undefined\<close>, where the
  tests expect \<open>42\<close>. On the name of a member of \<open>Object.prototype\<close>, as
  \<open>"constructor"\<close>, \<open>get\<close> throws. On a tokenized path that is not empty the walk is
  the direct nested dereference (\<open>get_plain_tokens\<close> above), as for
  \<open>["a","0","b","0","c"]\<close>.
\<close>

theorem get_plain_path_examples:
  "toPath (PathStr ''a.b.c'') = Some (Keys [])
   \<and> get s (PathStr ''a.b.c'') d = Some (Inr (if s = JUndefined then d else s))
   \<and> get JNull (PathStr ''a.b.c'') (JStr ''not found'') = Some (Inr JNull)
   \<and> get JNull (PathStr ''a.b.c'') (JStr ''not found'') \<noteq> Some (Inr (JStr ''not found''))
   \<and> get JNull (PathArr []) (JStr ''dflt'') = Some (Inr JNull)
   \<and> get testObject (PathStr ''x'') JUndefined = Some (Inr testObject)
   \<and> get testObject (PathStr ''z.y'') (JStr ''not found'') = Some (Inr testObject)
   \<and> toPath (PathStr ''a[0].b[0].c'') = Some (Keys [''0'', ''0''])
   \<and> get testObject (PathStr ''a[0].b[0].c'') JUndefined = Some (Inr JUndefined)
   \<and> get s (PathStr ''constructor'') d = Some (Inl TypeError)
   \<and> get testObject (PathArr [''a'', ''0'', ''b'', ''0'', ''c'']) JUndefined =
       Some (Inr (JNum 42))
   \<and> get JNull (PathArr [''a'', ''b'', ''c'']) (JStr ''not found'') =
       Some (Inr (JStr ''not found''))
   \<and> get JUndefined (PathStr ''a.b.c'') (JStr ''dflt'') = Some (Inr (JStr ''dflt''))
   \<and> pick JNull (PathStr ''a.b.c'') = Some (Inr (JObj []))
   \<and> pick JNull paths = Some (Inr (JObj []))
   \<and> pick JUndefined paths = Some (Inr (JObj []))"
proof -
  have t: "toPath (PathStr ''a.b.c'') = Some (Keys [])" by code_simp
  have tx: "toPath (PathStr ''x'') = Some (Keys [])" by code_simp
  have tz: "toPath (PathStr ''z.y'') = Some (Keys [])" by code_simp
  have t0: "toPath (PathStr ''a[0].b[0].c'') = Some (Keys [''0'', ''0''])" by code_simp
  have n: "testObject \<noteq> JUndefined" by (simp add: testObject_def)
  have g: "get s (PathStr ''a.b.c'') d = Some (Inr (if s = JUndefined then d else s))" for s d
    using get_plain_tokens [OF t, of s d] by simp
  have "get testObject (PathStr ''x'') JUndefined = Some (Inr testObject)"
    using get_plain_tokens [OF tx, of testObject JUndefined] n by simp
  moreover
  have "get testObject (PathStr ''z.y'') (JStr ''not found'') = Some (Inr testObject)"
    using get_plain_tokens [OF tz, of testObject "JStr ''not found''"] n by simp
  moreover
  have "get testObject (PathStr ''a[0].b[0].c'') JUndefined = Some (Inr JUndefined)"
    by code_simp
  moreover
  have "get s (PathStr ''constructor'') d = Some (Inl TypeError)"
    by (rule get_inherited) (simp add: objectPrototype_def)
  moreover
  have "get testObject (PathArr [''a'', ''0'', ''b'', ''0'', ''c'']) JUndefined =
          Some (Inr (JNum 42))"
    by code_simp
  moreover
  have "get JNull (PathArr [''a'', ''b'', ''c'']) (JStr ''not found'') =
          Some (Inr (JStr ''not found''))"
    by code_simp
  moreover
  have "get JNull (PathArr []) (JStr ''dflt'') = Some (Inr JNull)" by code_simp
  moreover
  have "pick JNull paths = Some (Inr (JObj []))" "pick JUndefined paths = Some (Inr (JObj []))"
    for paths
    by (simp_all add: pick_def isNullish_def)
  ultimately show ?thesis
    using t t0 g [of s d] g [of JNull "JStr ''not found''"] g [of JUndefined "JStr ''dflt''"]
    by simp
qed

section \<open>Properties of pick\<close>






lemma processWildcardPath_root_wrapped:
  assumes "keys \<noteq> []" and "keys ! 0 \<noteq> ''[]''"
  shows "processWildcardPath object keys 0 = JUndefined
         \<or> (\<exists>v. processWildcardPath object keys 0 = JObj [(keys ! 0, v)])"
  using assms by (subst (1 2) processWildcardPath.simps) (simp add: Let_def)

text \<open>
  Claim C2 says that \<open>pick\<close> with a wildcard path returns the source's structure along the
  path under the path's first segment, and that
  \<open>pick({a:[{b:[{c:42},{c:43}]}]}, "a.[].b[0].c")\<close> is \<open>{a:[{b:[{c:42}]}]}\<close>. On this string
  \<open>toPath\<close> does not return. On a path string that is tokenized to
  \<open>["a","[]","b","0","c"]\<close> the result is \<open>{a:{a:[{b:{"0":{c:42}}}]}}\<close>: the subtree built by
  \<open>processWildcardPath\<close> already starts with the first segment and is stored under it
  once more, and an index segment is rebuilt as an object. The nested-wildcard path gives
  \<open>{a:{a:[...]}}\<close> as well.
\<close>

theorem pick_wildcard_examples:
  "pick pickObject (PathStr ''a.[].b[0].c'') = None
   \<and> pick pickObject (PathStr ''[\"a\"][][\"b\"][0][\"c\"]'') =
       Some (Inr (JObj [(''a'', JObj [(''a'',
               JArr [JObj [(''b'', JObj [(''0'', JObj [(''c'', JNum 42)])])]])])]))
   \<and> pick nestedObject (PathStr ''[\"a\"][][\"b\"][][\"c\"]'') =
       Some (Inr (JObj [(''a'', JObj [(''a'',
               JArr [JObj [(''b'', JArr [JObj [(''c'', JNum 42)], JObj [(''c'', JNum 43)]])],
                     JObj [(''b'', JArr [JObj [(''c'', JNum 99)], JObj [(''c'', JNum 100)]])]])])]))"
proof -
  have "toPath (PathStr ''a.[].b[0].c'') = None"
    using toPath_dot_wildcard_diverges [of "''a''" "''.b[0].c''"] by simp
  then have "pick pickObject (PathStr ''a.[].b[0].c'') = None"
    by (simp add: pick_def pickObject_def isNullish_def)
  moreover
  have "pick pickObject (PathStr ''[\"a\"][][\"b\"][0][\"c\"]'') =
       Some (Inr (JObj [(''a'', JObj [(''a'',
               JArr [JObj [(''b'', JObj [(''0'', JObj [(''c'', JNum 42)])])]])])]))"
    by code_simp
  moreover
  have "pick nestedObject (PathStr ''[\"a\"][][\"b\"][][\"c\"]'') =
       Some (Inr (JObj [(''a'', JObj [(''a'',
               JArr [JObj [(''b'', JArr [JObj [(''c'', JNum 42)], JObj [(''c'', JNum 43)]])],
                     JObj [(''b'', JArr [JObj [(''c'', JNum 99)], JObj [(''c'', JNum 100)]])]])])]))"
    by code_simp
  ultimately show ?thesis by (simp only: simp_thms)
qed



end
